theory Spec2Isabelle
  imports Main "HOL-Library.Sublist"
begin

section \<open>Python strings\<close>

text \<open>
  The program is \<^verbatim>\<open>src/master.py\<close>. A Python \<^verbatim>\<open>str\<close> is a sequence of Unicode code
  points, so a string is a list of code points; literals of the source are written
  \<open>str ''...''\<close>, and the few non-ASCII characters of the source by their code point.
\<close>

type_synonym codepoint = nat
type_synonym pystr = "codepoint list"

definition str :: "string \<Rightarrow> pystr" where
  "str cs = map of_char cs"

text \<open>
  \<^verbatim>\<open>str.strip()\<close> without argument removes leading and trailing whitespace; these are the
  code points for which CPython's \<^verbatim>\<open>str.isspace\<close> holds.
\<close>

definition is_space :: "codepoint \<Rightarrow> bool" where
  "is_space c \<longleftrightarrow>
     (9 \<le> c \<and> c \<le> 13) \<or> (28 \<le> c \<and> c \<le> 32) \<or> c = 133 \<or> c = 160 \<or> c = 5760 \<or>
     (8192 \<le> c \<and> c \<le> 8202) \<or> c = 8232 \<or> c = 8233 \<or> c = 8239 \<or> c = 8287 \<or> c = 12288"

definition py_strip :: "pystr \<Rightarrow> pystr" where
  "py_strip s = rev (dropWhile is_space (rev (dropWhile is_space s)))"

text \<open>\<^verbatim>\<open>sub in s\<close>: \<open>sub\<close> occurs in \<open>s\<close> as a contiguous substring.\<close>

definition py_in :: "'a list \<Rightarrow> 'a list \<Rightarrow> bool" where
  "py_in sub s = sublist sub s"

text \<open>
  The leftmost occurrence of \<open>sep\<close> in a string: the text before it and the text after it
  (\<^verbatim>\<open>str.partition\<close>), or \<open>None\<close> when \<open>sep\<close> does not occur. Both \<^verbatim>\<open>str.split\<close> and
  \<^verbatim>\<open>str.replace\<close> scan for occurrences from left to right in this way.
\<close>

fun split_first :: "'a list \<Rightarrow> 'a list \<Rightarrow> ('a list \<times> 'a list) option" where
  "split_first sep [] = (if sep = [] then Some ([], []) else None)"
| "split_first sep (c # cs) =
     (if prefix sep (c # cs) then Some ([], drop (length sep) (c # cs))
      else (case split_first sep cs of
              None \<Rightarrow> None
            | Some (b, a) \<Rightarrow> Some (c # b, a)))"

datatype error = ValueError | IndexError | UnicodeEncodeError | UnicodeDecodeError

text \<open>
  \<^verbatim>\<open>s.split(sep)\<close>: the pieces between the non-overlapping occurrences of \<open>sep\<close>, found
  from the left; an empty separator raises \<^verbatim>\<open>ValueError\<close>.
\<close>

function split_all :: "'a list \<Rightarrow> 'a list \<Rightarrow> 'a list list" where
  "split_all sep s =
     (if sep = [] then [s]
      else (case split_first sep s of
              None \<Rightarrow> [s]
            | Some (b, a) \<Rightarrow> b # split_all sep a))"
  by pat_completeness auto
termination
proof (relation "measure (\<lambda>(sep, s). length s)")
  show "wf (measure (\<lambda>(sep :: 'a list, s :: 'a list). length s))"
    by simp
next
  fix sep s :: "'a list" and x2 :: "'a list \<times> 'a list" and b a :: "'a list"
  assume ne: "sep \<noteq> []" and sf: "split_first sep s = Some x2" and x2: "(b, a) = x2"
  have "split_first sep t = Some (u, v) \<Longrightarrow> length v < length t" for t u v
  proof (induction t arbitrary: u)
    case Nil
    with ne show ?case by simp
  next
    case (Cons c cs)
    with ne show ?case
      by (cases sep) (auto split: if_splits option.splits)
  qed
  with sf x2 show "((sep, a), (sep, s)) \<in> measure (\<lambda>(sep, s). length s)"
    by auto
qed

definition py_split :: "'a list \<Rightarrow> 'a list \<Rightarrow> error + 'a list list" where
  "py_split s sep = (if sep = [] then Inl ValueError else Inr (split_all sep s))"

text \<open>\<^verbatim>\<open>xs[i]\<close> for a non-negative index; out of range raises \<^verbatim>\<open>IndexError\<close>.\<close>

definition py_index :: "'a list \<Rightarrow> nat \<Rightarrow> error + 'a" where
  "py_index xs i = (if i < length xs then Inr (xs ! i) else Inl IndexError)"

text \<open>
  \<^verbatim>\<open>s.replace(old, new)\<close>: every non-overlapping occurrence of \<open>old\<close>, found from the left,
  is replaced by \<open>new\<close>; an empty \<open>old\<close> matches before every character and at the end.
\<close>

function py_replace :: "'a list \<Rightarrow> 'a list \<Rightarrow> 'a list \<Rightarrow> 'a list" where
  "py_replace old new [] = (if old = [] then new else [])"
| "py_replace old new (c # cs) =
     (if old = [] then new @ c # py_replace old new cs
      else if prefix old (c # cs) then new @ py_replace old new (drop (length old) (c # cs))
      else c # py_replace old new cs)"
  by pat_completeness auto
termination
  by (relation "measure (\<lambda>(old, new, s). length s)") auto

section \<open>UTF-8\<close>

text \<open>
  \<^verbatim>\<open>s.encode("utf-8")\<close> turns a string into bytes, one to four for each code point. A
  surrogate (\<^verbatim>\<open>U+D800\<close> to \<^verbatim>\<open>U+DFFF\<close>), which a Python string can hold, has no encoding and
  raises \<^verbatim>\<open>UnicodeEncodeError\<close>. A byte is a number below 256; a value from \<^verbatim>\<open>0x110000\<close> on
  is no code point of a Python string and is refused as well.
\<close>

type_synonym bytes = "nat list"

definition utf8_bytes :: "codepoint \<Rightarrow> bytes option" where
  "utf8_bytes c =
     (if c < 0x80 then Some [c]
      else if c < 0x800 then Some [0xC0 + c div 64, 0x80 + c mod 64]
      else if 0xD800 \<le> c \<and> c \<le> 0xDFFF then None
      else if c < 0x10000 then
        Some [0xE0 + c div 4096, 0x80 + c div 64 mod 64, 0x80 + c mod 64]
      else if c < 0x110000 then
        Some [0xF0 + c div 262144, 0x80 + c div 4096 mod 64, 0x80 + c div 64 mod 64,
              0x80 + c mod 64]
      else None)"

fun py_encode :: "pystr \<Rightarrow> error + bytes" where
  "py_encode [] = Inr []"
| "py_encode (c # cs) =
     (case utf8_bytes c of
        None \<Rightarrow> Inl UnicodeEncodeError
      | Some bs \<Rightarrow> (case py_encode cs of Inl e \<Rightarrow> Inl e | Inr r \<Rightarrow> Inr (bs @ r)))"

text \<open>
  \<^verbatim>\<open>b.decode("utf-8")\<close>, the strict decoder, with which an entry of the archive is read
  back as text: it refuses a stray or missing continuation byte, an overlong form, a
  surrogate and a value beyond \<^verbatim>\<open>U+10FFFF\<close> with \<^verbatim>\<open>UnicodeDecodeError\<close>.
\<close>

definition continuation :: "nat \<Rightarrow> bool" where
  "continuation b \<longleftrightarrow> 0x80 \<le> b \<and> b < 0xC0"

definition decoded :: "codepoint \<Rightarrow> error + pystr \<Rightarrow> error + pystr" where
  "decoded c rest = (case rest of Inl e \<Rightarrow> Inl e | Inr t \<Rightarrow> Inr (c # t))"

fun py_decode :: "bytes \<Rightarrow> error + pystr" where
  "py_decode [] = Inr []"
| "py_decode (b0 # bs) =
     (if b0 < 0x80 then decoded b0 (py_decode bs)
      else if 0xC2 \<le> b0 \<and> b0 < 0xE0 then
        (case bs of
           b1 # r \<Rightarrow>
             if continuation b1
             then decoded ((b0 - 0xC0) * 64 + (b1 - 0x80)) (py_decode r)
             else Inl UnicodeDecodeError
         | _ \<Rightarrow> Inl UnicodeDecodeError)
      else if 0xE0 \<le> b0 \<and> b0 < 0xF0 then
        (case bs of
           b1 # b2 # r \<Rightarrow>
             (let c = (b0 - 0xE0) * 4096 + (b1 - 0x80) * 64 + (b2 - 0x80)
              in if continuation b1 \<and> continuation b2 \<and> 0x800 \<le> c \<and>
                    \<not> (0xD800 \<le> c \<and> c \<le> 0xDFFF)
                 then decoded c (py_decode r)
                 else Inl UnicodeDecodeError)
         | _ \<Rightarrow> Inl UnicodeDecodeError)
      else if 0xF0 \<le> b0 \<and> b0 < 0xF5 then
        (case bs of
           b1 # b2 # b3 # r \<Rightarrow>
             (let c = (b0 - 0xF0) * 262144 + (b1 - 0x80) * 4096 + (b2 - 0x80) * 64 + (b3 - 0x80)
              in if continuation b1 \<and> continuation b2 \<and> continuation b3 \<and>
                    0x10000 \<le> c \<and> c < 0x110000
                 then decoded c (py_decode r)
                 else Inl UnicodeDecodeError)
         | _ \<Rightarrow> Inl UnicodeDecodeError)
      else Inl UnicodeDecodeError)"

text \<open>The code points that have an encoding: the Unicode scalar values.\<close>

definition scalar :: "codepoint \<Rightarrow> bool" where
  "scalar c \<longleftrightarrow> c < 0xD800 \<or> (0xDFFF < c \<and> c < 0x110000)"

section \<open>Helpers of the program\<close>

text \<open>
  \<^verbatim>\<open>
  def extract_section(text, start, end):
      try:
          return text.split(start)[1].split(end)[0].strip()
      except Exception:
          return ""
  \<close>
  The body of the \<^verbatim>\<open>try\<close> is \<open>section_between\<close>, with each exception as an \<open>Inl\<close>;
  \<open>extract_section\<close> is the handler around it.
\<close>

definition section_between :: "pystr \<Rightarrow> pystr \<Rightarrow> pystr \<Rightarrow> error + pystr" where
  "section_between text start end' =
     (case py_split text start of
        Inl e \<Rightarrow> Inl e
      | Inr parts \<Rightarrow>
          (case py_index parts 1 of
             Inl e \<Rightarrow> Inl e
           | Inr seg \<Rightarrow>
               (case py_split seg end' of
                  Inl e \<Rightarrow> Inl e
                | Inr parts' \<Rightarrow>
                    (case py_index parts' 0 of
                       Inl e \<Rightarrow> Inl e
                     | Inr first \<Rightarrow> Inr (py_strip first)))))"

definition extract_section :: "pystr \<Rightarrow> pystr \<Rightarrow> pystr \<Rightarrow> pystr" where
  "extract_section text start end' =
     (case section_between text start end' of Inl e \<Rightarrow> [] | Inr r \<Rightarrow> r)"

text \<open>The six string literals of \<^verbatim>\<open>fix_html_links\<close>.\<close>

definition link_probe :: pystr where
  \<open>link_probe = str ''<link rel="stylesheet"''\<close>

definition head_close :: pystr where
  \<open>head_close = str ''</head>''\<close>

definition link_insert :: pystr where
  \<open>link_insert = str ''  <link rel="stylesheet" href="style.css">\<newline></head>''\<close>

definition script_probe :: pystr where
  \<open>script_probe = str ''<script src="script.js"''\<close>

definition body_close :: pystr where
  \<open>body_close = str ''</body>''\<close>

definition script_insert :: pystr where
  \<open>script_insert = str ''  <script src="script.js"></script>\<newline></body>''\<close>

text \<open>
  \<^verbatim>\<open>
  def fix_html_links(html):
      if '<link rel="stylesheet"' not in html:
          html = html.replace("</head>", '  <link rel="stylesheet" href="style.css">\n</head>')
      if '<script src="script.js"' not in html:
          html = html.replace("</body>", '  <script src="script.js"></script>\n</body>')
      return html
  \<close>
\<close>

definition fix_html_links :: "pystr \<Rightarrow> pystr" where
  "fix_html_links html =
     (let html1 = (if \<not> py_in link_probe html
                   then py_replace head_close link_insert html else html);
          html2 = (if \<not> py_in script_probe html1
                   then py_replace body_close script_insert html1 else html1)
      in html2)"

section \<open>The archive\<close>

text \<open>
  \<^verbatim>\<open>zipfile.ZipFile(zip_buffer, "w", zipfile.ZIP_DEFLATED)\<close> starts an empty archive.
  \<^verbatim>\<open>writestr(name, data)\<close> with a string as data encodes it
  (\<^verbatim>\<open>data = data.encode("utf-8")\<close>), which can raise, and appends an entry with these
  bytes. An archive is the list of its entries in the order written, each a file name with
  the bytes of the file. How the bytes are laid out in the buffer, DEFLATE-compressed by
  zlib, is not described here: \<^verbatim>\<open>read(name)\<close> is taken to return the bytes that were
  written under the name (of the entry written last, if there are several), or nothing for
  a name that is not in the archive. \<^verbatim>\<open>namelist()\<close> lists the names.
\<close>

type_synonym archive = "(pystr \<times> bytes) list"

definition writestr :: "archive \<Rightarrow> pystr \<Rightarrow> pystr \<Rightarrow> error + archive" where
  "writestr zipf name data =
     (case py_encode data of
        Inl e \<Rightarrow> Inl e
      | Inr bs \<Rightarrow> Inr (zipf @ [(name, bs)]))"

definition namelist :: "archive \<Rightarrow> pystr list" where
  "namelist zipf = map fst zipf"

definition zip_read :: "archive \<Rightarrow> pystr \<Rightarrow> bytes option" where
  "zip_read zipf name = map_of (rev zipf) name"

text \<open>
  \<^verbatim>\<open>
  with zipfile.ZipFile(zip_buffer, "w", zipfile.ZIP_DEFLATED) as zipf:
      zipf.writestr("index.html", html_code)
      zipf.writestr("style.css", css_code)
      zipf.writestr("script.js", js_code)
  \<close>
  An exception of one \<^verbatim>\<open>writestr\<close> leaves the block; the later ones do not run.
\<close>

definition zip_buffer :: "pystr \<Rightarrow> pystr \<Rightarrow> pystr \<Rightarrow> error + archive" where
  "zip_buffer html_code css_code js_code =
     (case writestr [] (str ''index.html'') html_code of
        Inl e \<Rightarrow> Inl e
      | Inr zipf \<Rightarrow>
          (case writestr zipf (str ''style.css'') css_code of
             Inl e \<Rightarrow> Inl e
           | Inr zipf \<Rightarrow> writestr zipf (str ''script.js'') js_code))"

section \<open>The page script\<close>

text \<open>
  Streamlit runs \<^verbatim>\<open>master.py\<close> from top to bottom on every interaction. One run reads the
  environment variable \<^verbatim>\<open>GEM\<close>, the content of the text area, whether the button was
  clicked, and (at most once) the reply of the model; it renders elements on the page and
  either reaches the end of the script, is ended by \<^verbatim>\<open>st.stop()\<close>, or is ended by an
  exception that the script does not catch: one of the model call, or one of writing the
  archive.
\<close>

record session =
  getenv_GEM :: "pystr option"
  user_prompt :: pystr
  button :: bool
  invoke :: "pystr \<Rightarrow> pystr \<Rightarrow> pystr option"

datatype element =
    Title pystr
  | Write pystr
  | TextArea pystr
  | Button pystr
  | Spinner pystr
  | ErrorBox pystr
  | CodeBox pystr
  | DownloadButton pystr archive pystr
  | SuccessBox pystr
  | InfoBox pystr

datatype outcome = Finished | Stopped | Raised

record run =
  page :: "element list"
  requests :: "(pystr \<times> pystr) list"
  outcome :: outcome

definition system_prompt :: pystr where
  \<open>system_prompt =
     str (''\<newline>You are a senior frontend developer and UI/UX designer.\<newline>'' @
          ''\<newline>Generate a COMPLETE, MODERN, PROFESSIONAL PORTFOLIO WEBSITE.\<newline>'' @
          ''\<newline>MANDATORY SECTIONS:\<newline>'' @
          ''Hero, About, Skills, Experience, Projects, Achievements, Contact\<newline>'' @
          ''\<newline>IMPORTANT:\<newline>HTML MUST include:\<newline>'' @
          ''<link rel="stylesheet" href="style.css">\<newline>'' @
          ''<script src="script.js"></script>\<newline>'' @
          ''\<newline>STRICT OUTPUT FORMAT:\<newline>'' @
          ''\<newline>--html--\<newline>[HTML ONLY]\<newline>--html--\<newline>'' @
          ''\<newline>--css--\<newline>[CSS ONLY]\<newline>--css--\<newline>'' @
          ''\<newline>--js--\<newline>[JAVASCRIPT ONLY]\<newline>--js--\<newline>\<newline>'')
     @ [10060] @ str '' No explanations\<newline>''\<close>

text \<open>
  The elements rendered before the key is checked (lines 10 and 11), and those rendered by
  the time the button is evaluated (lines 24 and 90).
\<close>

definition heading :: "element list" where
  "heading =
     [Title (str ''AI Portfolio Website Generator''),
      Write (str ''Describe yourself and get a complete portfolio website (HTML + CSS + JS).'')]"

definition form :: "element list" where
  "form = heading @
     [TextArea (str ''Describe yourself (name, role, experience, skills, projects, achievements):''),
      Button (str ''Generate Portfolio Website'')]"

text \<open>
  The script, lines 13 to 134. The code points 10060, 9203, 11015 with 65039, and 9989 are
  the cross mark, the hourglass, the down arrow and the check mark of the messages.
\<close>

definition master :: "session \<Rightarrow> run" where
  "master s =
     (if getenv_GEM s = None \<or> getenv_GEM s = Some [] then
        \<lparr>page = heading @
           [ErrorBox (10060 # str '' Google API key not found. Please set GEM in .env file.'')],
         requests = [], outcome = Stopped\<rparr>
      else if \<not> button s then
        \<lparr>page = form, requests = [], outcome = Finished\<rparr>
      else if py_strip (user_prompt s) = [] then
        \<lparr>page = form @ [ErrorBox (10060 # str '' Please enter your details.'')],
         requests = [], outcome = Stopped\<rparr>
      else
        (let spinner = Spinner (9203 # str '' Generating your portfolio website...'');
             sent = [(system_prompt, user_prompt s)]
         in case invoke s system_prompt (user_prompt s) of
              None \<Rightarrow> \<lparr>page = form @ [spinner], requests = sent, outcome = Raised\<rparr>
            | Some response \<Rightarrow>
                (let html_code = extract_section response (str ''--html--'') (str ''--html--'');
                     css_code = extract_section response (str ''--css--'') (str ''--css--'');
                     js_code = extract_section response (str ''--js--'') (str ''--js--'')
                 in if html_code = [] then
                      \<lparr>page = form @ [spinner,
                                ErrorBox (10060 # str '' Failed to generate website.''),
                                CodeBox response],
                       requests = sent, outcome = Stopped\<rparr>
                    else
                      (let html_code = fix_html_links html_code
                       in case zip_buffer html_code css_code js_code of
                            Inl e \<Rightarrow>
                              \<lparr>page = form @ [spinner], requests = sent, outcome = Raised\<rparr>
                          | Inr zipf \<Rightarrow>
                              \<lparr>page = form @ [spinner,
                                 DownloadButton
                                   ([11015, 65039] @ str '' Download Portfolio Website'')
                                   zipf (str ''portfolio_website.zip''),
                                 SuccessBox
                                   (9989 # str '' Portfolio website generated successfully!''),
                                 InfoBox
                                   (str ''Unzip the files and open index.html in your browser.'')],
                               requests = sent, outcome = Finished\<rparr>))))"

text \<open>The archive offered for download by a run, if any.\<close>

fun downloads :: "element list \<Rightarrow> archive list" where
  "downloads [] = []"
| "downloads (DownloadButton label data file_name # es) = data # downloads es"
| "downloads (e # es) = downloads es"

section \<open>Occurrences, splitting and replacing\<close>

lemma split_first_SomeD: "split_first sep s = Some (b, a) \<Longrightarrow> s = b @ sep @ a"
proof (induction s arbitrary: b)
  case Nil
  then show ?case by (simp split: if_splits)
next
  case (Cons c cs)
  show ?case
  proof (cases "prefix sep (c # cs)")
    case True
    with Cons.prems have "b = []" "a = drop (length sep) (c # cs)" by simp_all
    moreover from True have "c # cs = sep @ drop (length sep) (c # cs)"
      by (metis append_eq_conv_conj prefixE)
    ultimately show ?thesis by simp
  next
    case False
    with Cons.prems obtain b' where "split_first sep cs = Some (b', a)" "b = c # b'"
      by (auto split: option.splits)
    with Cons.IH show ?thesis by simp
  qed
qed

lemma split_first_None_iff: "split_first sep s = None \<longleftrightarrow> \<not> sublist sep s"
  by (induction s) (auto simp: sublist_Cons_right split: option.splits)

lemma split_first_first:
  "sep \<noteq> [] \<Longrightarrow> split_first sep s = Some (b, a) \<Longrightarrow> \<not> sublist sep (b @ butlast sep)"
proof (induction s arbitrary: b)
  case Nil
  then show ?case by simp
next
  case (Cons c cs)
  show ?case
  proof (cases "prefix sep (c # cs)")
    case True
    with Cons.prems have "b = []" by simp
    moreover have "\<not> sublist sep (butlast sep)"
      using Cons.prems(1) by (metis sublist_length_le length_butlast length_greater_0_conv diff_less not_le zero_less_one)
    ultimately show ?thesis by simp
  next
    case False
    with Cons.prems obtain b' where b': "split_first sep cs = Some (b', a)" "b = c # b'"
      by (auto split: option.splits)
    from Cons.IH[OF Cons.prems(1) b'(1)] have nsub: "\<not> sublist sep (b' @ butlast sep)" .
    have "\<not> prefix sep (c # b' @ butlast sep)"
    proof
      assume "prefix sep (c # b' @ butlast sep)"
      moreover have "prefix (c # b' @ butlast sep) (c # cs)"
        using split_first_SomeD[OF b'(1)] by (simp add: prefix_def) (metis append_butlast_last_id Cons.prems(1) append_assoc)
      ultimately have "prefix sep (c # cs)" by (rule prefix_order.trans)
      with False show False by simp
    qed
    with nsub b'(2) show ?thesis by (simp add: sublist_Cons_right)
  qed
qed

lemma split_first_SomeI:
  "sep \<noteq> [] \<Longrightarrow> \<not> sublist sep (b @ butlast sep) \<Longrightarrow> split_first sep (b @ sep @ a) = Some (b, a)"
proof (induction b)
  case Nil
  then obtain c cs where "sep = c # cs" by (cases sep) auto
  then show ?case by simp
next
  case (Cons c b)
  have "\<not> prefix sep (c # b @ sep @ a)"
  proof
    assume p: "prefix sep (c # b @ sep @ a)"
    have q: "prefix (c # b @ butlast sep) (c # b @ sep @ a)"
      by (simp add: prefix_def) (metis append_butlast_last_id Cons.prems(1) append_assoc)
    have "length sep \<le> length (c # b @ butlast sep)" by simp
    with p q have "prefix sep (c # b @ butlast sep)"
      by (metis prefix_length_prefix)
    with Cons.prems(2) show False by auto
  qed
  moreover from Cons.prems(2) have "\<not> sublist sep (b @ butlast sep)"
    by (simp add: sublist_Cons_right)
  ultimately show ?case using Cons.IH Cons.prems(1) by simp
qed

lemma py_replace_id: "\<not> sublist old s \<Longrightarrow> py_replace old new s = s"
proof (induction s)
  case Nil
  then show ?case by auto
next
  case (Cons c cs)
  then have "old \<noteq> []" "\<not> prefix old (c # cs)" "\<not> sublist old cs"
    by (auto simp: sublist_Cons_right)
  with Cons.IH show ?case by simp
qed

lemma py_replace_first:
  "old \<noteq> [] \<Longrightarrow> split_first old s = Some (b, a) \<Longrightarrow>
   py_replace old new s = b @ new @ py_replace old new a"
proof (induction s arbitrary: b)
  case Nil
  then show ?case by simp
next
  case (Cons c cs)
  then show ?case
    by (cases "prefix old (c # cs)") (auto split: option.splits)
qed

lemma py_replace_contains_new:
  assumes "old \<noteq> []" "sublist old s"
  shows "sublist new (py_replace old new s)"
proof -
  from assms(2) obtain b a where "split_first old s = Some (b, a)"
    using split_first_None_iff[of old s] by (cases "split_first old s") auto
  from py_replace_first[OF assms(1) this] show ?thesis by simp
qed

text \<open>
  Inserting text in front of one occurrence of \<open>old\<close>: which occurrences of a pattern
  \<open>P\<close> survive, and which can appear.
\<close>

lemma insert_keeps:
  assumes "old \<noteq> []" "hd old \<notin> set (tl P)" "sublist P (a @ old @ b)"
  shows "sublist P (a @ X @ old @ b)"
proof -
  from assms(3) consider "sublist P a" | "sublist P (old @ b)"
    | xs1 xs2 where "P = xs1 @ xs2" "suffix xs1 a" "prefix xs2 (old @ b)"
    by (auto simp: sublist_append)
  then show ?thesis
  proof cases
    case 1
    then show ?thesis by (simp add: sublist_append)
  next
    case 2
    then show ?thesis by (simp add: sublist_append)
  next
    case 3
    show ?thesis
    proof (cases "xs1 = [] \<or> xs2 = []")
      case True
      with 3 have "sublist P (old @ b) \<or> sublist P a" by auto
      then show ?thesis by (auto simp: sublist_append)
    next
      case False
      then obtain y ys where xs2: "xs2 = y # ys" by (cases xs2) auto
      from False obtain x xs where xs1: "xs1 = x # xs" by (cases xs1) auto
      from assms(1) obtain o1 os where old: "old = o1 # os" by (cases old) auto
      from 3(3) xs2 old have "y = o1" by simp
      with 3(1) xs1 xs2 old have "hd old \<in> set (tl P)" by simp
      with assms(2) show ?thesis by simp
    qed
  qed
qed

lemma replace_keeps:
  assumes "old \<noteq> []" "hd old \<notin> set (tl P)"
  shows "sublist P (pre @ s) \<Longrightarrow> sublist P (pre @ py_replace old (X @ old) s)"
proof (induction s arbitrary: pre rule: length_induct)
  case (1 s)
  show ?case
  proof (cases s)
    case Nil
    with 1 assms(1) show ?thesis by simp
  next
    case (Cons c cs)
    show ?thesis
    proof (cases "prefix old (c # cs)")
      case True
      define s' where "s' = drop (length old) (c # cs)"
      from True have s: "s = old @ s'"
        unfolding s'_def Cons by (metis append_eq_conv_conj prefixE)
      from assms(1) s have len: "length s' < length s" by simp
      from "1.prems" s have "sublist P (pre @ X @ old @ s')"
        using insert_keeps[OF assms, of pre s' X] by simp
      then have "sublist P ((pre @ X @ old) @ s')" by simp
      with 1 len have "sublist P ((pre @ X @ old) @ py_replace old (X @ old) s')"
        by blast
      with True assms(1) show ?thesis unfolding Cons s'_def by simp
    next
      case False
      from "1.prems" have "sublist P ((pre @ [c]) @ cs)" unfolding Cons by simp
      with 1 have "sublist P ((pre @ [c]) @ py_replace old (X @ old) cs)"
        unfolding Cons by (metis length_Cons lessI)
      with False assms(1) show ?thesis unfolding Cons by simp
    qed
  qed
qed

lemma insert_creates_nothing:
  assumes Ca: "\<And>z. suffix z P \<Longrightarrow> z \<noteq> [] \<Longrightarrow> z \<noteq> P \<Longrightarrow> \<not> prefix z (new @ b)"
    and Cb: "sublist P (new @ b) \<Longrightarrow> sublist P (old @ b)"
    and occ: "sublist P (a @ new @ b)"
  shows "sublist P (a @ old @ b)"
proof -
  from occ consider "sublist P a" | "sublist P (new @ b)"
    | xs1 xs2 where "P = xs1 @ xs2" "suffix xs1 a" "prefix xs2 (new @ b)"
    by (auto simp: sublist_append)
  then show ?thesis
  proof cases
    case 1
    then show ?thesis by (simp add: sublist_append)
  next
    case 2
    with Cb show ?thesis by (simp add: sublist_append)
  next
    case 3
    show ?thesis
    proof (cases "xs1 = [] \<or> xs2 = []")
      case True
      with 3 have "sublist P (new @ b) \<or> sublist P a" by auto
      with Cb show ?thesis by (auto simp: sublist_append)
    next
      case False
      with 3(1) have "suffix xs2 P" "xs2 \<noteq> []" "xs2 \<noteq> P"
        by (auto simp: suffix_def)
      from Ca[OF this] 3(3) show ?thesis by simp
    qed
  qed
qed

lemma replace_creates_nothing:
  assumes ne: "old \<noteq> []"
    and single: "\<And>a b. sublist P (a @ new @ b) \<Longrightarrow> sublist P (a @ old @ b)"
  shows "sublist P (pre @ py_replace old new s) \<Longrightarrow> sublist P (pre @ s)"
proof (induction s arbitrary: pre rule: length_induct)
  case (1 s)
  show ?case
  proof (cases s)
    case Nil
    with 1 ne show ?thesis by simp
  next
    case (Cons c cs)
    show ?thesis
    proof (cases "prefix old (c # cs)")
      case True
      define s' where "s' = drop (length old) (c # cs)"
      from True have s: "s = old @ s'"
        unfolding s'_def Cons by (metis append_eq_conv_conj prefixE)
      from ne s have len: "length s' < length s" by simp
      from "1.prems" True ne have "sublist P ((pre @ new) @ py_replace old new s')"
        unfolding Cons s'_def by simp
      with 1 len have "sublist P ((pre @ new) @ s')" by blast
      then have "sublist P (pre @ new @ s')" by simp
      then have "sublist P (pre @ old @ s')"
        by (rule single)
      with s show ?thesis by simp
    next
      case False
      from "1.prems" False ne have "sublist P ((pre @ [c]) @ py_replace old new cs)"
        unfolding Cons by simp
      with 1 have "sublist P ((pre @ [c]) @ cs)"
        unfolding Cons by (metis length_Cons lessI)
      then show ?thesis unfolding Cons by simp
    qed
  qed
qed

lemmas lits = link_probe_def head_close_def link_insert_def script_probe_def body_close_def
  script_insert_def str_def

section \<open>The two replacements of \<^verbatim>\<open>fix_html_links\<close>\<close>

lemma link_insert_app: "link_insert = str ''  <link rel=\"stylesheet\" href=\"style.css\">\<newline>'' @ head_close"
  by (simp add: lits)

lemma script_insert_app: "script_insert = str ''  <script src=\"script.js\"></script>\<newline>'' @ body_close"
  by (simp add: lits)

lemma link_step_keeps:
  assumes "60 \<notin> set (tl P)" "sublist P s"
  shows "sublist P (py_replace head_close link_insert s)"
proof -
  have "head_close \<noteq> []" "hd head_close \<notin> set (tl P)"
    using assms(1) by (simp_all add: lits)
  from replace_keeps[OF this, of "[]" s] assms(2) show ?thesis
    unfolding link_insert_app by simp
qed

lemma script_step_keeps:
  assumes "60 \<notin> set (tl P)" "sublist P s"
  shows "sublist P (py_replace body_close script_insert s)"
proof -
  have "body_close \<noteq> []" "hd body_close \<notin> set (tl P)"
    using assms(1) by (simp_all add: lits)
  from replace_keeps[OF this, of "[]" s] assms(2) show ?thesis
    unfolding script_insert_app by simp
qed

lemma link_insert_no_script:
  assumes "sublist script_probe (a @ link_insert @ b)"
  shows "sublist script_probe (a @ head_close @ b)"
proof (rule insert_creates_nothing[OF _ _ assms])
  fix z
  assume "suffix z script_probe" "z \<noteq> []" "z \<noteq> script_probe"
  moreover have "\<forall>z\<in>set (suffixes script_probe).
      z \<noteq> [] \<longrightarrow> z \<noteq> script_probe \<longrightarrow> \<not> prefix z (link_insert @ b)"
    by (simp add: lits)
  ultimately show "\<not> prefix z (link_insert @ b)"
    by simp
next
  show "sublist script_probe (link_insert @ b) \<Longrightarrow> sublist script_probe (head_close @ b)"
    by (simp add: lits sublist_Cons_right)
qed

lemma link_step_no_script:
  "sublist script_probe (pre @ py_replace head_close link_insert s) \<Longrightarrow> sublist script_probe (pre @ s)"
  by (rule replace_creates_nothing[where old = head_close and new = link_insert])
    (simp_all add: link_insert_no_script, simp add: lits)

lemma link_insert_no_body:
  assumes "sublist body_close (a @ link_insert @ b)"
  shows "sublist body_close (a @ head_close @ b)"
proof (rule insert_creates_nothing[OF _ _ assms])
  fix z
  assume "suffix z body_close" "z \<noteq> []" "z \<noteq> body_close"
  moreover have "\<forall>z\<in>set (suffixes body_close).
      z \<noteq> [] \<longrightarrow> z \<noteq> body_close \<longrightarrow> \<not> prefix z (link_insert @ b)"
    by (simp add: lits)
  ultimately show "\<not> prefix z (link_insert @ b)"
    by simp
next
  show "sublist body_close (link_insert @ b) \<Longrightarrow> sublist body_close (head_close @ b)"
    by (simp add: lits sublist_Cons_right)
qed

lemma link_step_no_body:
  "sublist body_close (pre @ py_replace head_close link_insert s) \<Longrightarrow> sublist body_close (pre @ s)"
  by (rule replace_creates_nothing[where old = head_close and new = link_insert])
    (simp_all add: link_insert_no_body, simp add: lits)

lemma script_insert_no_link:
  assumes "sublist link_probe (a @ script_insert @ b)"
  shows "sublist link_probe (a @ body_close @ b)"
proof (rule insert_creates_nothing[OF _ _ assms])
  fix z
  assume "suffix z link_probe" "z \<noteq> []" "z \<noteq> link_probe"
  moreover have "\<forall>z\<in>set (suffixes link_probe).
      z \<noteq> [] \<longrightarrow> z \<noteq> link_probe \<longrightarrow> \<not> prefix z (script_insert @ b)"
    by (simp add: lits)
  ultimately show "\<not> prefix z (script_insert @ b)"
    by simp
next
  show "sublist link_probe (script_insert @ b) \<Longrightarrow> sublist link_probe (body_close @ b)"
    by (simp add: lits sublist_Cons_right)
qed

lemma script_step_no_link:
  "sublist link_probe (pre @ py_replace body_close script_insert s) \<Longrightarrow> sublist link_probe (pre @ s)"
  by (rule replace_creates_nothing[where old = body_close and new = script_insert])
    (simp_all add: script_insert_no_link, simp add: lits)

lemma script_insert_no_head:
  assumes "sublist head_close (a @ script_insert @ b)"
  shows "sublist head_close (a @ body_close @ b)"
proof (rule insert_creates_nothing[OF _ _ assms])
  fix z
  assume "suffix z head_close" "z \<noteq> []" "z \<noteq> head_close"
  moreover have "\<forall>z\<in>set (suffixes head_close).
      z \<noteq> [] \<longrightarrow> z \<noteq> head_close \<longrightarrow> \<not> prefix z (script_insert @ b)"
    by (simp add: lits)
  ultimately show "\<not> prefix z (script_insert @ b)"
    by simp
next
  show "sublist head_close (script_insert @ b) \<Longrightarrow> sublist head_close (body_close @ b)"
    by (simp add: lits sublist_Cons_right)
qed

lemma script_step_no_head:
  "sublist head_close (pre @ py_replace body_close script_insert s) \<Longrightarrow> sublist head_close (pre @ s)"
  by (rule replace_creates_nothing[where old = body_close and new = script_insert])
    (simp_all add: script_insert_no_head, simp add: lits)

lemma link_step_fixed:
  "py_in link_probe h \<or> \<not> py_in head_close h \<Longrightarrow>
   (if \<not> py_in link_probe h then py_replace head_close link_insert h else h) = h"
  by (auto simp: py_in_def py_replace_id)

lemma script_step_fixed:
  "py_in script_probe h \<or> \<not> py_in body_close h \<Longrightarrow>
   (if \<not> py_in script_probe h then py_replace body_close script_insert h else h) = h"
  by (auto simp: py_in_def py_replace_id)

lemma link_step_done:
  defines "h \<equiv> (\<lambda>m. if \<not> py_in link_probe m then py_replace head_close link_insert m else m)"
  shows "py_in link_probe (h m) \<or> \<not> py_in head_close (h m)"
proof (cases "py_in link_probe m \<or> \<not> py_in head_close m")
  case True
  then show ?thesis unfolding h_def by (auto simp: py_in_def py_replace_id)
next
  case False
  then have "sublist head_close m" by (simp add: py_in_def)
  then have "sublist link_insert (py_replace head_close link_insert m)"
    by (intro py_replace_contains_new) (simp_all add: lits)
  moreover have "sublist link_probe link_insert"
    by (simp add: lits sublist_Cons_right)
  ultimately have "sublist link_probe (py_replace head_close link_insert m)"
    by (rule sublist_order.order.trans[rotated])
  with False show ?thesis unfolding h_def by (simp add: py_in_def)
qed

lemma script_step_done:
  defines "h \<equiv> (\<lambda>m. if \<not> py_in script_probe m then py_replace body_close script_insert m else m)"
  shows "py_in script_probe (h m) \<or> \<not> py_in body_close (h m)"
proof (cases "py_in script_probe m \<or> \<not> py_in body_close m")
  case True
  then show ?thesis unfolding h_def by (auto simp: py_in_def py_replace_id)
next
  case False
  then have "sublist body_close m" by (simp add: py_in_def)
  then have "sublist script_insert (py_replace body_close script_insert m)"
    by (intro py_replace_contains_new) (simp_all add: lits)
  moreover have "sublist script_probe script_insert"
    by (simp add: lits sublist_Cons_right)
  ultimately have "sublist script_probe (py_replace body_close script_insert m)"
    by (rule sublist_order.order.trans[rotated])
  with False show ?thesis unfolding h_def by (simp add: py_in_def)
qed

section \<open>Markup repair\<close>

text \<open>
  Claim C5. Repairing twice is repairing once: for every markup \<open>m\<close>,
  \<open>fix_html_links (fix_html_links m) = fix_html_links m\<close>; and markup that already
  contains both the literal \<^verbatim>\<open><link rel="stylesheet"\<close> and the literal
  \<^verbatim>\<open><script src="script.js"\<close> is returned unchanged.
\<close>

theorem fix_html_links_idempotent:
  "fix_html_links (fix_html_links m) = fix_html_links m \<and>
   (py_in link_probe m \<and> py_in script_probe m \<longrightarrow> fix_html_links m = m)"
proof
  define h where "h = (if \<not> py_in link_probe m then py_replace head_close link_insert m else m)"
  define m' where "m' = (if \<not> py_in script_probe h then py_replace body_close script_insert h else h)"
  have fm: "fix_html_links m = m'"
    by (simp add: fix_html_links_def Let_def h_def m'_def)
  have hd: "py_in link_probe h \<or> \<not> py_in head_close h"
    unfolding h_def using link_step_done[of m] by simp
  have c1: "py_in link_probe m' \<or> \<not> py_in head_close m'"
  proof (cases "py_in script_probe h")
    case True
    with hd show ?thesis by (simp add: m'_def)
  next
    case False
    then have m': "m' = py_replace body_close script_insert h" by (simp add: m'_def)
    from hd show ?thesis
    proof
      assume "py_in link_probe h"
      then have "sublist link_probe m'"
        unfolding m' py_in_def by (intro script_step_keeps) (simp_all add: lits)
      then show ?thesis by (simp add: py_in_def)
    next
      assume "\<not> py_in head_close h"
      then have "\<not> sublist head_close m'"
        unfolding m' py_in_def using script_step_no_head[of "[]" h] by auto
      then show ?thesis by (simp add: py_in_def)
    qed
  qed
  have c2: "py_in script_probe m' \<or> \<not> py_in body_close m'"
    unfolding m'_def using script_step_done[of h] by simp
  have "fix_html_links m' = m'"
    unfolding fix_html_links_def Let_def
    by (simp only: link_step_fixed[OF c1] script_step_fixed[OF c2])
  with fm show "fix_html_links (fix_html_links m) = fix_html_links m" by simp
next
  show "py_in link_probe m \<and> py_in script_probe m \<longrightarrow> fix_html_links m = m"
    by (simp add: fix_html_links_def)
qed

theorem fix_html_links_idempotent_witness:
  \<open>py_in link_probe (str ''<head><link rel="stylesheet" href="a.css"></head><body><script src="script.js"></script></body>'') \<and>
   py_in script_probe (str ''<head><link rel="stylesheet" href="a.css"></head><body><script src="script.js"></script></body>'') \<and>
   fix_html_links (str ''<head><link rel="stylesheet" href="a.css"></head><body><script src="script.js"></script></body>'') =
     str ''<head><link rel="stylesheet" href="a.css"></head><body><script src="script.js"></script></body>''\<close>
proof -
  have \<open>py_in link_probe (str ''<head><link rel="stylesheet" href="a.css"></head><body><script src="script.js"></script></body>'') \<and>
   py_in script_probe (str ''<head><link rel="stylesheet" href="a.css"></head><body><script src="script.js"></script></body>'')\<close>
    by (simp add: py_in_def lits sublist_Cons_right)
  with fix_html_links_idempotent show ?thesis by blast
qed

text \<open>
  Claim C6. Markup that has neither the literal \<^verbatim>\<open><link rel="stylesheet"\<close> nor a closing
  \<^verbatim>\<open></head>\<close> gets no stylesheet link: the first replacement changes nothing, the result
  is what the script step alone makes of the markup, and it still has no stylesheet link.
  Symmetrically, markup with neither \<^verbatim>\<open><script src="script.js"\<close> nor \<^verbatim>\<open></body>\<close> gets no
  script tag. The function has no failing branch: \<^verbatim>\<open>in\<close> and \<^verbatim>\<open>replace\<close> on strings raise
  nothing, and \<open>fix_html_links\<close> returns a string for every markup.
\<close>

theorem fix_html_links_no_closing_tag:
  "(\<not> py_in link_probe m \<and> \<not> py_in head_close m \<longrightarrow>
      fix_html_links m =
        (if \<not> py_in script_probe m then py_replace body_close script_insert m else m) \<and>
      \<not> py_in link_probe (fix_html_links m)) \<and>
   (\<not> py_in script_probe m \<and> \<not> py_in body_close m \<longrightarrow>
      fix_html_links m =
        (if \<not> py_in link_probe m then py_replace head_close link_insert m else m) \<and>
      \<not> py_in script_probe (fix_html_links m))"
proof (intro conjI impI)
  assume a: "\<not> py_in link_probe m \<and> \<not> py_in head_close m"
  then have h: "py_replace head_close link_insert m = m"
    by (simp add: py_in_def py_replace_id)
  with a show eq: "fix_html_links m =
      (if \<not> py_in script_probe m then py_replace body_close script_insert m else m)"
    by (simp add: fix_html_links_def)
  from a have "\<not> sublist link_probe (py_replace body_close script_insert m)"
    using script_step_no_link[of "[]" m] by (auto simp: py_in_def)
  with a show "\<not> py_in link_probe (fix_html_links m)"
    unfolding eq by (simp add: py_in_def)
next
  assume a: "\<not> py_in script_probe m \<and> \<not> py_in body_close m"
  define h where "h = (if \<not> py_in link_probe m then py_replace head_close link_insert m else m)"
  from a have ns: "\<not> py_in script_probe h"
    unfolding h_def using link_step_no_script[of "[]" m] by (auto simp: py_in_def)
  from a have "\<not> py_in body_close h"
    unfolding h_def using link_step_no_body[of "[]" m] by (auto simp: py_in_def)
  then have "py_replace body_close script_insert h = h"
    by (simp add: py_in_def py_replace_id)
  with ns have eq: "fix_html_links m = h"
    by (simp add: fix_html_links_def h_def[symmetric])
  then show "fix_html_links m =
      (if \<not> py_in link_probe m then py_replace head_close link_insert m else m)"
    by (simp add: h_def)
  from ns eq show "\<not> py_in script_probe (fix_html_links m)"
    by simp
qed

theorem fix_html_links_no_closing_tag_witness:
  "\<not> py_in link_probe (str ''<p>x</p>'') \<and> \<not> py_in head_close (str ''<p>x</p>'') \<and>
   \<not> py_in script_probe (str ''<p>x</p>'') \<and> \<not> py_in body_close (str ''<p>x</p>'') \<and>
   fix_html_links (str ''<p>x</p>'') = str ''<p>x</p>'' \<and>
   \<not> py_in link_probe (fix_html_links (str ''<p>x</p>'')) \<and>
   \<not> py_in script_probe (fix_html_links (str ''<p>x</p>''))"
proof -
  have "\<not> py_in link_probe (str ''<p>x</p>'') \<and> \<not> py_in head_close (str ''<p>x</p>'') \<and>
   \<not> py_in script_probe (str ''<p>x</p>'') \<and> \<not> py_in body_close (str ''<p>x</p>'')"
    by (simp add: py_in_def lits sublist_Cons_right)
  with fix_html_links_no_closing_tag[of "str ''<p>x</p>''"] show ?thesis
    by (simp add: py_in_def py_replace_id)
qed

text \<open>
  Claim C10. The presence checks are substring tests on the tag prefixes. Markup that
  contains \<^verbatim>\<open><link rel="stylesheet"\<close> anywhere gets no stylesheet insertion (the result is that
  of the script step alone), markup that contains \<^verbatim>\<open><script src="script.js"\<close> anywhere gets
  no script insertion (the result is that of the link step alone), and repaired markup need
  not mention \<^verbatim>\<open>style.css\<close>: a link to \<^verbatim>\<open>main.css\<close> passes the check.
\<close>

theorem fix_html_links_probe_only:
  \<open>(py_in link_probe m \<longrightarrow>
      fix_html_links m =
        (if \<not> py_in script_probe m then py_replace body_close script_insert m else m)) \<and>
   (py_in script_probe m \<longrightarrow>
      fix_html_links m =
        (if \<not> py_in link_probe m then py_replace head_close link_insert m else m)) \<and>
   py_in link_probe (str ''<head><link rel="stylesheet" href="main.css"></head><body></body>'') \<and>
   \<not> py_in (str ''style.css'')
      (fix_html_links (str ''<head><link rel="stylesheet" href="main.css"></head><body></body>''))\<close>
proof (intro conjI impI)
  assume "py_in link_probe m"
  then show "fix_html_links m =
      (if \<not> py_in script_probe m then py_replace body_close script_insert m else m)"
    by (simp add: fix_html_links_def)
next
  assume a: "py_in script_probe m"
  have "60 \<notin> set (tl script_probe)"
    by (simp add: lits)
  from link_step_keeps[OF this] a
  have "py_in script_probe (py_replace head_close link_insert m)"
    by (simp add: py_in_def)
  with a show "fix_html_links m =
      (if \<not> py_in link_probe m then py_replace head_close link_insert m else m)"
    by (simp add: fix_html_links_def)
next
  show \<open>py_in link_probe (str ''<head><link rel="stylesheet" href="main.css"></head><body></body>'')\<close>
    by (simp add: py_in_def lits sublist_Cons_right)
next
  show \<open>\<not> py_in (str ''style.css'')
      (fix_html_links (str ''<head><link rel="stylesheet" href="main.css"></head><body></body>''))\<close>
    by (simp add: fix_html_links_def py_in_def lits sublist_Cons_right)
qed

theorem fix_html_links_probe_only_witness:
  \<open>py_in link_probe (str ''<head><link rel="stylesheet" href="main.css"></head><script src="script.js"></script>'') \<and>
   py_in script_probe (str ''<head><link rel="stylesheet" href="main.css"></head><script src="script.js"></script>'') \<and>
   fix_html_links (str ''<head><link rel="stylesheet" href="main.css"></head><script src="script.js"></script>'') =
     str ''<head><link rel="stylesheet" href="main.css"></head><script src="script.js"></script>''\<close>
proof -
  have \<open>py_in link_probe (str ''<head><link rel="stylesheet" href="main.css"></head><script src="script.js"></script>'') \<and>
   py_in script_probe (str ''<head><link rel="stylesheet" href="main.css"></head><script src="script.js"></script>'')\<close>
    by (simp add: py_in_def lits sublist_Cons_right)
  with fix_html_links_probe_only[of \<open>str ''<head><link rel="stylesheet" href="main.css"></head><script src="script.js"></script>''\<close>]
  show ?thesis by simp
qed

text \<open>
  Claim C3, as stated, fails: repair does not make every markup reference the two files.
  The reply \<^verbatim>\<open>--html--<p>x</p>--html--\<close> gives the markup \<^verbatim>\<open><p>x</p>\<close>, which has no closing
  head or body tag; it is repaired to itself and mentions neither \<^verbatim>\<open>style.css\<close> nor
  \<^verbatim>\<open>script.js\<close>.
\<close>

theorem fix_html_links_references_counterexample:
  "fix_html_links
     (extract_section (str ''--html--<p>x</p>--html--'') (str ''--html--'') (str ''--html--'')) =
     str ''<p>x</p>'' \<and>
   \<not> py_in (str ''style.css'') (str ''<p>x</p>'') \<and>
   \<not> py_in (str ''script.js'') (str ''<p>x</p>'')"
  by (simp add: extract_section_def section_between_def py_split_def py_index_def py_strip_def
      is_space_def fix_html_links_def py_in_def lits sublist_Cons_right)

lemma fix_html_links_keeps:
  assumes "60 \<notin> set (tl P)" and "sublist P m"
  shows "sublist P (fix_html_links m)"
proof -
  define h where "h = (if \<not> py_in link_probe m then py_replace head_close link_insert m else m)"
  have fm: "fix_html_links m =
      (if \<not> py_in script_probe h then py_replace body_close script_insert h else h)"
    by (simp add: fix_html_links_def h_def)
  from assms have "sublist P h"
    by (simp add: h_def link_step_keeps)
  with assms(1) show ?thesis
    unfolding fm by (simp add: script_step_keeps)
qed

lemma fix_html_links_link_part:
  assumes "sublist P link_insert" and "60 \<notin> set (tl P)"
    and "py_in head_close m" and "\<not> py_in link_probe m"
  shows "sublist P (fix_html_links m)"
proof -
  define h where "h = py_replace head_close link_insert m"
  have fm: "fix_html_links m =
      (if \<not> py_in script_probe h then py_replace body_close script_insert h else h)"
    using assms(4) by (simp add: fix_html_links_def h_def)
  have "sublist link_insert h"
    unfolding h_def using assms(3) by (intro py_replace_contains_new) (simp_all add: lits py_in_def)
  with assms(1) have "sublist P h"
    by (rule sublist_order.order.trans)
  with assms(2) show ?thesis
    unfolding fm by (simp add: script_step_keeps)
qed

lemma fix_html_links_script_part:
  assumes "sublist Q script_probe" and "py_in body_close m"
  shows "sublist Q (fix_html_links m)"
proof -
  define h where "h = (if \<not> py_in link_probe m then py_replace head_close link_insert m else m)"
  have fm: "fix_html_links m =
      (if \<not> py_in script_probe h then py_replace body_close script_insert h else h)"
    by (simp add: fix_html_links_def h_def)
  have "60 \<notin> set (tl body_close)"
    by (simp add: lits)
  with assms(2) have body: "sublist body_close h"
    by (simp add: h_def py_in_def link_step_keeps)
  have "sublist script_probe (fix_html_links m)"
  proof (cases "py_in script_probe h")
    case True
    with fm show ?thesis
      by (simp add: py_in_def)
  next
    case False
    from body have "sublist script_insert (py_replace body_close script_insert h)"
      by (intro py_replace_contains_new) (simp_all add: lits)
    moreover have "sublist script_probe script_insert"
      by (simp add: lits sublist_Cons_right)
    ultimately have "sublist script_probe (py_replace body_close script_insert h)"
      by (rule sublist_order.order.trans[rotated])
    with False fm show ?thesis
      by simp
  qed
  with assms(1) show ?thesis
    by (rule sublist_order.order.trans)
qed

text \<open>
  Claim C3, amended. The repaired markup references both files whenever each reference is
  either there already or can be inserted. If the markup contains the link tag to
  \<^verbatim>\<open>style.css\<close>, or contains a closing \<^verbatim>\<open></head>\<close> and lacks the literal
  \<^verbatim>\<open><link rel="stylesheet"\<close>, and if it contains the literal \<^verbatim>\<open><script src="script.js"\<close> or a
  closing \<^verbatim>\<open></body>\<close>, then the repaired markup contains the link tag to \<^verbatim>\<open>style.css\<close> and
  the script tag opening for \<^verbatim>\<open>script.js\<close>. The same holds with the bare file names in
  place of the tags: if the markup mentions \<^verbatim>\<open>style.css\<close>, or contains \<^verbatim>\<open></head>\<close> and lacks
  the literal link prefix, and if it mentions \<^verbatim>\<open>script.js\<close> or contains \<^verbatim>\<open></body>\<close>, then the
  repaired markup mentions \<^verbatim>\<open>style.css\<close> and \<^verbatim>\<open>script.js\<close>.
\<close>

theorem fix_html_links_references:
  \<open>((py_in (str ''<link rel="stylesheet" href="style.css">'') m \<or>
      py_in head_close m \<and> \<not> py_in link_probe m) \<and>
     (py_in (str ''<script src="script.js"'') m \<or> py_in body_close m) \<longrightarrow>
       py_in (str ''<link rel="stylesheet" href="style.css">'') (fix_html_links m) \<and>
       py_in (str ''<script src="script.js"'') (fix_html_links m)) \<and>
   ((py_in (str ''style.css'') m \<or> py_in head_close m \<and> \<not> py_in link_probe m) \<and>
     (py_in (str ''script.js'') m \<or> py_in body_close m) \<longrightarrow>
       py_in (str ''style.css'') (fix_html_links m) \<and>
       py_in (str ''script.js'') (fix_html_links m))\<close>
proof -
  define tag where \<open>tag = str ''<link rel="stylesheet" href="style.css">''\<close>
  define css where "css = str ''style.css''"
  define js where "js = str ''script.js''"
  have no60: "60 \<notin> set (tl tag)" "60 \<notin> set (tl css)" "60 \<notin> set (tl js)"
    "60 \<notin> set (tl script_probe)"
    by (simp_all add: tag_def css_def js_def lits)
  have part: "sublist tag link_insert" "sublist css link_insert"
    "sublist js script_probe" "sublist script_probe script_probe"
    by (simp_all add: tag_def css_def js_def lits sublist_Cons_right)
  have link: "py_in P (fix_html_links m)"
    if "py_in P m \<or> py_in head_close m \<and> \<not> py_in link_probe m"
      and "sublist P link_insert" and "60 \<notin> set (tl P)" for P
    using that fix_html_links_keeps[of P m] fix_html_links_link_part[of P m]
    by (auto simp: py_in_def)
  have script: "py_in Q (fix_html_links m)"
    if "py_in Q m \<or> py_in body_close m" and "sublist Q script_probe" and "60 \<notin> set (tl Q)"
    for Q
    using that fix_html_links_keeps[of Q m] fix_html_links_script_part[of Q m]
    by (auto simp: py_in_def)
  have "(py_in tag m \<or> py_in head_close m \<and> \<not> py_in link_probe m) \<and>
        (py_in script_probe m \<or> py_in body_close m) \<longrightarrow>
          py_in tag (fix_html_links m) \<and> py_in script_probe (fix_html_links m)"
    using link[of tag] script[of script_probe] no60 part by blast
  moreover have "(py_in css m \<or> py_in head_close m \<and> \<not> py_in link_probe m) \<and>
        (py_in js m \<or> py_in body_close m) \<longrightarrow>
          py_in css (fix_html_links m) \<and> py_in js (fix_html_links m)"
    using link[of css] script[of js] no60 part by blast
  ultimately show ?thesis
    unfolding tag_def css_def js_def script_probe_def by blast
qed

theorem fix_html_links_references_witness:
  \<open>py_in (str ''<link rel="stylesheet" href="style.css">'')
     (fix_html_links (str ''<head></head><body><script src="script.js"></script>'')) \<and>
   py_in (str ''<script src="script.js"'')
     (fix_html_links (str ''<head></head><body><script src="script.js"></script>'')) \<and>
   py_in (str ''style.css'')
     (fix_html_links (str ''<head></head><body><script src="script.js"></script>'')) \<and>
   py_in (str ''script.js'')
     (fix_html_links (str ''<head></head><body><script src="script.js"></script>''))\<close>
proof -
  have h: \<open>py_in head_close (str ''<head></head><body><script src="script.js"></script>'')\<close>
    \<open>\<not> py_in link_probe (str ''<head></head><body><script src="script.js"></script>'')\<close>
    \<open>py_in (str ''<script src="script.js"'')
       (str ''<head></head><body><script src="script.js"></script>'')\<close>
    \<open>py_in (str ''script.js'') (str ''<head></head><body><script src="script.js"></script>'')\<close>
    by (simp_all add: py_in_def lits sublist_Cons_right)
  from fix_html_links_references[of \<open>str ''<head></head><body><script src="script.js"></script>''\<close>] h
  show ?thesis
    by blast
qed

text \<open>
  Claim C2, as stated, fails: \<^verbatim>\<open>str.replace\<close> replaces every occurrence, not the first one.
  Markup with two closing head tags and neither literal tag gets a stylesheet link before
  each of them.
\<close>

theorem fix_html_links_inserts_counterexample:
  \<open>\<not> py_in link_probe (str ''<head></head></head><body></body>'') \<and>
   \<not> py_in script_probe (str ''<head></head></head><body></body>'') \<and>
   fix_html_links (str ''<head></head></head><body></body>'') =
     str (''<head>  <link rel="stylesheet" href="style.css">\<newline></head>'' @
          ''  <link rel="stylesheet" href="style.css">\<newline></head>'' @
          ''<body>  <script src="script.js"></script>\<newline></body>'') \<and>
   fix_html_links (str ''<head></head></head><body></body>'') \<noteq>
     str (''<head>  <link rel="stylesheet" href="style.css">\<newline></head></head>'' @
          ''<body>  <script src="script.js"></script>\<newline></body>'')\<close>
  by (simp add: fix_html_links_def py_in_def lits sublist_Cons_right)

text \<open>
  Claim C2, amended. When the markup contains neither literal tag, repair replaces every
  closing \<^verbatim>\<open></head>\<close> by the stylesheet-link line followed by \<^verbatim>\<open></head>\<close>, and then every
  closing \<^verbatim>\<open></body>\<close> by the script line followed by \<^verbatim>\<open></body>\<close>. When the markup has exactly
  one closing head tag, followed by exactly one closing body tag, that is exactly one
  stylesheet-link tag immediately before the closing head tag and exactly one script tag
  immediately before the closing body tag.
\<close>

theorem fix_html_links_inserts:
  assumes "\<not> py_in link_probe m" and "\<not> py_in script_probe m"
  shows "fix_html_links m =
           py_replace body_close script_insert (py_replace head_close link_insert m) \<and>
         (\<forall>a r b c.
            split_first head_close m = Some (a, r) \<and> \<not> py_in head_close r \<and>
            split_first body_close m = Some (a @ head_close @ b, c) \<and> \<not> py_in body_close c \<longrightarrow>
            fix_html_links m = a @ link_insert @ b @ script_insert @ c)"
proof -
  define h where "h = py_replace head_close link_insert m"
  have hne: "head_close \<noteq> []" and bne: "body_close \<noteq> []"
    by (simp_all add: lits)
  from assms(2) have "\<not> py_in script_probe h"
    unfolding h_def using link_step_no_script[of "[]" m] by (auto simp: py_in_def)
  with assms(1) have fm: "fix_html_links m = py_replace body_close script_insert h"
    by (simp add: fix_html_links_def h_def)
  have "fix_html_links m = a @ link_insert @ b @ script_insert @ c"
    if sh: "split_first head_close m = Some (a, r)" and nh: "\<not> py_in head_close r"
      and sb: "split_first body_close m = Some (a @ head_close @ b, c)"
      and nb: "\<not> py_in body_close c"
    for a r b c
  proof -
    from split_first_SomeD[OF sh] split_first_SomeD[OF sb] have r: "r = b @ body_close @ c"
      by simp
    from py_replace_first[OF hne sh] nh have h: "h = a @ link_insert @ b @ body_close @ c"
      by (simp add: h_def py_in_def py_replace_id r)
    from split_first_first[OF bne sb]
    have "\<not> sublist body_close (a @ head_close @ (b @ butlast body_close))"
      by simp
    then have "\<not> sublist body_close (a @ link_insert @ (b @ butlast body_close))"
      using link_insert_no_body by blast
    then have "\<not> sublist body_close ((a @ link_insert @ b) @ butlast body_close)"
      by simp
    from split_first_SomeI[OF bne this, of c]
    have "split_first body_close h = Some (a @ link_insert @ b, c)"
      by (simp add: h)
    from py_replace_first[OF bne this] nb
    have "py_replace body_close script_insert h = (a @ link_insert @ b) @ script_insert @ c"
      by (simp add: py_in_def py_replace_id)
    with fm show ?thesis by simp
  qed
  with fm show ?thesis
    unfolding h_def by blast
qed

theorem fix_html_links_inserts_witness:
  \<open>\<not> py_in link_probe (str ''<head></head><body></body>'') \<and>
   \<not> py_in script_probe (str ''<head></head><body></body>'') \<and>
   split_first head_close (str ''<head></head><body></body>'') =
     Some (str ''<head>'', str ''<body></body>'') \<and>
   \<not> py_in head_close (str ''<body></body>'') \<and>
   split_first body_close (str ''<head></head><body></body>'') =
     Some (str ''<head>'' @ head_close @ str ''<body>'', []) \<and>
   \<not> py_in body_close [] \<and>
   fix_html_links (str ''<head></head><body></body>'') =
     str ''<head>'' @ link_insert @ str ''<body>'' @ script_insert @ []\<close>
proof -
  have h: \<open>\<not> py_in link_probe (str ''<head></head><body></body>'')\<close>
    \<open>\<not> py_in script_probe (str ''<head></head><body></body>'')\<close>
    by (simp_all add: py_in_def lits sublist_Cons_right)
  have s: \<open>split_first head_close (str ''<head></head><body></body>'') =
     Some (str ''<head>'', str ''<body></body>'') \<and>
   \<not> py_in head_close (str ''<body></body>'') \<and>
   split_first body_close (str ''<head></head><body></body>'') =
     Some (str ''<head>'' @ head_close @ str ''<body>'', []) \<and>
   \<not> py_in body_close []\<close>
    by (simp add: py_in_def lits sublist_Cons_right)
  from fix_html_links_inserts[OF h] s h show ?thesis
    by blast
qed

section \<open>The response splitter\<close>

lemma split_all_unfold:
  "sep \<noteq> [] \<Longrightarrow>
   split_all sep s = (case split_first sep s of None \<Rightarrow> [s] | Some (b, a) \<Rightarrow> b # split_all sep a)"
  by (subst split_all.simps) simp

lemma hd_split_all:
  "sep \<noteq> [] \<Longrightarrow>
   hd (split_all sep s) = (case split_first sep s of None \<Rightarrow> s | Some (b, a) \<Rightarrow> b)"
  by (subst split_all_unfold) (auto split: option.splits)

lemma split_all_nonempty: "split_all sep s \<noteq> []"
  by (subst split_all.simps) (auto split: option.splits)

lemma section_between_no_start:
  "\<not> sublist start text \<Longrightarrow> section_between text start end' = Inl IndexError"
proof -
  assume a: "\<not> sublist start text"
  then have "start \<noteq> []" by auto
  moreover from a have "split_first start text = None"
    by (simp add: split_first_None_iff)
  ultimately show ?thesis
    by (simp add: section_between_def py_split_def py_index_def split_all_unfold)
qed

lemma section_between_empty_marker:
  "start = [] \<or> end' = [] \<Longrightarrow> \<exists>e. section_between text start end' = Inl e"
  by (auto simp: section_between_def py_split_def py_index_def split: sum.splits if_splits)

lemma section_between_start:
  assumes "start \<noteq> []" "end' \<noteq> []" "split_first start text = Some (p, rest)"
  shows "section_between text start end' =
           Inr (py_strip (hd (split_all end' (hd (split_all start rest)))))"
proof -
  from assms(1,3) have "split_all start text = p # split_all start rest"
    by (simp add: split_all_unfold)
  moreover obtain x xs where x: "split_all start rest = x # xs"
    using split_all_nonempty[of start rest] by (cases "split_all start rest") auto
  moreover obtain y ys where "split_all end' x = y # ys"
    using split_all_nonempty[of end' x] by (cases "split_all end' x") auto
  ultimately show ?thesis
    using assms(1,2) by (simp add: section_between_def py_split_def py_index_def)
qed

lemma hd_split_all_prefix: "sep \<noteq> [] \<Longrightarrow> prefix (hd (split_all sep s)) s"
  by (auto simp: hd_split_all split: option.splits dest: split_first_SomeD)

text \<open>
  Claim C1, as stated, fails in both of its cases. A reply cut off after the first marker
  has the start marker and no end marker after it, and the rest of the text is returned,
  not the empty string; and with the markers in reversed order the text after the start
  marker is returned.
\<close>

theorem extract_section_missing_end_counterexample:
  "split_first (str ''--html--'') (str ''--html--<p>x</p>'') = Some ([], str ''<p>x</p>'') \<and>
   \<not> py_in (str ''--html--'') (str ''<p>x</p>'') \<and>
   extract_section (str ''--html--<p>x</p>'') (str ''--html--'') (str ''--html--'') =
     str ''<p>x</p>'' \<and>
   split_first (str ''--b--'') (str ''--e--x--b--y'') = Some (str ''--e--x'', str ''y'') \<and>
   py_in (str ''--e--'') (str ''--e--x'') \<and>
   extract_section (str ''--e--x--b--y'') (str ''--b--'') (str ''--e--'') = str ''y''"
  by (simp add: extract_section_def section_between_def py_split_def py_index_def py_strip_def
      is_space_def py_in_def str_def sublist_Cons_right)

text \<open>
  Claim C1, amended. When the start marker does not occur in the text, or one of the
  markers is the empty string, \<open>extract_section\<close> returns the empty string. When the start
  marker occurs and the end marker does not occur after its first occurrence (which
  includes the two markers in reversed order), \<open>extract_section\<close> returns the text that
  follows the first start marker, up to the next occurrence of the start marker if there is
  one, without its leading and trailing whitespace.
\<close>

theorem extract_section_missing_marker:
  "(\<not> py_in start text \<or> start = [] \<or> end' = [] \<longrightarrow> extract_section text start end' = []) \<and>
   (start \<noteq> [] \<and> end' \<noteq> [] \<and> split_first start text = Some (p, rest) \<and>
    \<not> py_in end' rest \<longrightarrow>
      extract_section text start end' = py_strip (hd (split_all start rest)))"
proof (intro conjI impI)
  assume "\<not> py_in start text \<or> start = [] \<or> end' = []"
  then have "\<exists>e. section_between text start end' = Inl e"
    using section_between_no_start[of start "text" "end'"]
      section_between_empty_marker[of start "end'" "text"] by (auto simp: py_in_def)
  then show "extract_section text start end' = []"
    by (auto simp: extract_section_def)
next
  assume a: "start \<noteq> [] \<and> end' \<noteq> [] \<and> split_first start text = Some (p, rest) \<and>
    \<not> py_in end' rest"
  define seg where "seg = hd (split_all start rest)"
  from a have "prefix seg rest"
    unfolding seg_def by (intro hd_split_all_prefix) simp
  with a have "\<not> sublist end' seg"
    unfolding py_in_def by (meson prefix_imp_sublist sublist_order.order.trans)
  then have "split_first end' seg = None"
    by (simp add: split_first_None_iff)
  with a have "hd (split_all end' seg) = seg"
    by (simp add: hd_split_all)
  with a show "extract_section text start end' = py_strip (hd (split_all start rest))"
    by (simp add: extract_section_def section_between_start seg_def)
qed

theorem extract_section_missing_marker_witness:
  "\<not> py_in (str ''--html--'') (str ''<p>x</p>'') \<and>
   extract_section (str ''<p>x</p>'') (str ''--html--'') (str ''--html--'') = [] \<and>
   split_first (str ''--html--'') (str ''--html-- <p>x</p> '') = Some ([], str '' <p>x</p> '') \<and>
   \<not> py_in (str ''--html--'') (str '' <p>x</p> '') \<and>
   extract_section (str ''--html-- <p>x</p> '') (str ''--html--'') (str ''--html--'') =
     py_strip (hd (split_all (str ''--html--'') (str '' <p>x</p> '')))"
proof -
  have h: "\<not> py_in (str ''--html--'') (str ''<p>x</p>'')"
    "str ''--html--'' \<noteq> []"
    "split_first (str ''--html--'') (str ''--html-- <p>x</p> '') = Some ([], str '' <p>x</p> '')"
    "\<not> py_in (str ''--html--'') (str '' <p>x</p> '')"
    by (simp_all add: py_in_def str_def sublist_Cons_right)
  from extract_section_missing_marker[of "str ''--html--''" "str ''<p>x</p>''" "str ''--html--''"]
    extract_section_missing_marker[of "str ''--html--''" "str ''--html-- <p>x</p> ''"
      "str ''--html--''" "[]" "str '' <p>x</p> ''"] h
  show ?thesis by blast
qed

text \<open>
  Claim C4, as stated, fails when the two markers differ and the start marker occurs again
  before the end marker: \<^verbatim>\<open>text.split(start)[1]\<close> stops at the second start marker. In
  \<^verbatim>\<open>(a(b)\<close> with the markers \<^verbatim>\<open>(\<close> and \<^verbatim>\<open>)\<close> the text between the first \<^verbatim>\<open>(\<close> and the first
  \<^verbatim>\<open>)\<close> after it is \<^verbatim>\<open>a(b\<close>, and the result is \<^verbatim>\<open>a\<close>.
\<close>

theorem extract_section_between_counterexample:
  "split_first (str ''('') (str ''(a(b)'') = Some ([], str ''a(b)'') \<and>
   split_first (str '')'') (str ''a(b)'') = Some (str ''a(b'', []) \<and>
   extract_section (str ''(a(b)'') (str ''('') (str '')'') = str ''a'' \<and>
   str ''a'' \<noteq> py_strip (str ''a(b'')"
  by (simp add: extract_section_def section_between_def py_split_def py_index_def py_strip_def
      is_space_def str_def)

text \<open>
  Claim C4, amended. When the start marker does not occur in the text, \<open>extract_section\<close>
  returns the empty string. When the start marker occurs, the end marker occurs after its
  first occurrence, and the start marker does not occur again before the end of that end
  marker other than at the place where the end marker begins (as it does when the two
  markers are equal, which is how the script calls it), \<open>extract_section\<close> returns the text
  strictly between the first start marker and the first end marker after it, without its
  leading and trailing whitespace. In particular the text
  \<^verbatim>\<open>--html--\n<p>x</p>\n--html--\<close> with both markers \<^verbatim>\<open>--html--\<close> gives \<^verbatim>\<open><p>x</p>\<close>.
\<close>

theorem extract_section_between:
  "(\<not> py_in start text \<longrightarrow> extract_section text start end' = []) \<and>
   (start \<noteq> [] \<and> end' \<noteq> [] \<and>
    split_first start text = Some (p, rest) \<and> split_first end' rest = Some (q, r) \<and>
    (case split_first start rest of
       None \<Rightarrow> True
     | Some (q', r') \<Rightarrow> q' = q \<or> prefix (q @ end') q') \<longrightarrow>
      extract_section text start end' = py_strip q) \<and>
   extract_section (str ''--html--\<newline><p>x</p>\<newline>--html--'') (str ''--html--'')
     (str ''--html--'') = str ''<p>x</p>''"
proof (intro conjI impI)
  assume "\<not> py_in start text"
  then show "extract_section text start end' = []"
    by (simp add: extract_section_def section_between_no_start py_in_def)
next
  assume a: "start \<noteq> [] \<and> end' \<noteq> [] \<and>
    split_first start text = Some (p, rest) \<and> split_first end' rest = Some (q, r) \<and>
    (case split_first start rest of
       None \<Rightarrow> True
     | Some (q', r') \<Rightarrow> q' = q \<or> prefix (q @ end') q')"
  then have ne: "start \<noteq> []" "end' \<noteq> []" and se: "split_first end' rest = Some (q, r)"
    by simp_all
  from split_first_first[OF ne(2) se] have first: "\<not> sublist end' (q @ butlast end')" .
  define seg where "seg = hd (split_all start rest)"
  have "hd (split_all end' seg) = q"
  proof (cases "split_first start rest")
    case None
    with ne se show ?thesis
      by (simp add: seg_def hd_split_all)
  next
    case (Some qr)
    then obtain q' r' where qr: "split_first start rest = Some (q', r')"
      by (cases qr) auto
    with ne have seg: "seg = q'"
      by (simp add: seg_def hd_split_all)
    from a qr consider "q' = q" | "prefix (q @ end') q'"
      by auto
    then show ?thesis
    proof cases
      case 1
      from first have "\<not> sublist end' q"
        by (auto simp: sublist_append)
      with 1 ne show ?thesis
        by (simp add: seg hd_split_all split_first_None_iff[THEN iffD2])
    next
      case 2
      then obtain w where "q' = q @ end' @ w"
        by (auto simp: prefix_def)
      with split_first_SomeI[OF ne(2) first, of w] ne show ?thesis
        by (simp add: seg hd_split_all)
    qed
  qed
  with a show "extract_section text start end' = py_strip q"
    by (simp add: extract_section_def section_between_start seg_def)
next
  show "extract_section (str ''--html--\<newline><p>x</p>\<newline>--html--'') (str ''--html--'')
     (str ''--html--'') = str ''<p>x</p>''"
    by (simp add: extract_section_def section_between_def py_split_def py_index_def py_strip_def
      is_space_def str_def)
qed

theorem extract_section_between_witness:
  "\<not> py_in (str ''--css--'') (str ''<p>x</p>'') \<and>
   extract_section (str ''<p>x</p>'') (str ''--css--'') (str ''--css--'') = [] \<and>
   split_first (str ''--css--'') (str ''a--css-- b --css--c'') = Some (str ''a'', str '' b --css--c'') \<and>
   split_first (str ''--css--'') (str '' b --css--c'') = Some (str '' b '', str ''c'') \<and>
   extract_section (str ''a--css-- b --css--c'') (str ''--css--'') (str ''--css--'') =
     py_strip (str '' b '') \<and>
   py_strip (str '' b '') = str ''b''"
proof -
  have h: "\<not> py_in (str ''--css--'') (str ''<p>x</p>'')"
    "str ''--css--'' \<noteq> []"
    "split_first (str ''--css--'') (str ''a--css-- b --css--c'') = Some (str ''a'', str '' b --css--c'')"
    "split_first (str ''--css--'') (str '' b --css--c'') = Some (str '' b '', str ''c'')"
    "py_strip (str '' b '') = str ''b''"
    by (simp_all add: py_in_def str_def sublist_Cons_right py_strip_def is_space_def)
  from extract_section_between[of "str ''--css--''" "str ''<p>x</p>''" "str ''--css--''"] h(1)
  have 1: "extract_section (str ''<p>x</p>'') (str ''--css--'') (str ''--css--'') = []"
    by blast
  from extract_section_between[of "str ''--css--''" "str ''a--css-- b --css--c''" "str ''--css--''"
      "str ''a''" "str '' b --css--c''" "str '' b ''" "str ''c''"] h
  have 2: "extract_section (str ''a--css-- b --css--c'') (str ''--css--'') (str ''--css--'') =
     py_strip (str '' b '')"
    by simp
  from 1 2 h show ?thesis by simp
qed

section \<open>The archive and the page script\<close>

lemma py_strip_blank:
  assumes "\<forall>c\<in>set s. is_space c"
  shows "py_strip s = []"
proof -
  from assms have "dropWhile is_space s = []"
    by (induction s) simp_all
  then show ?thesis
    unfolding py_strip_def by (simp only: rev.simps dropWhile.simps)
qed

text \<open>Encoding and decoding: the arithmetic of the multi-byte forms, and the round trip.\<close>

lemma radix64: "(d::nat) div 64 * (64 * k) + d mod 64 * k = d * k"
proof -
  have "d * k = (d div 64 * 64 + d mod 64) * k"
    by simp
  also have "\<dots> = d div 64 * (64 * k) + d mod 64 * k"
    by (simp only: add_mult_distrib mult.assoc)
  finally show ?thesis
    by simp
qed

lemma utf8_three: "(c::nat) div 4096 * 4096 + c div 64 mod 64 * 64 + c mod 64 = c"
proof -
  have "c div 4096 = c div 64 div 64"
    by (simp add: div_mult2_eq[symmetric])
  with radix64[of "c div 64" 64] have "c div 4096 * 4096 + c div 64 mod 64 * 64 = c div 64 * 64"
    by simp
  then show ?thesis
    by simp
qed

lemma utf8_four:
  "(c::nat) div 262144 * 262144 + c div 4096 mod 64 * 4096 + c div 64 mod 64 * 64 + c mod 64 = c"
proof -
  have "c div 262144 = c div 4096 div 64"
    by (simp add: div_mult2_eq[symmetric])
  with radix64[of "c div 4096" 4096]
  have "c div 262144 * 262144 + c div 4096 mod 64 * 4096 = c div 4096 * 4096"
    by simp
  with utf8_three[of c] show ?thesis
    by simp
qed

lemma div64_less: "(c::nat) < 0x800 \<Longrightarrow> c div 64 < 32"
  by (rule less_mult_imp_div_less) simp

lemma div4096_less: "(c::nat) < 0x10000 \<Longrightarrow> c div 4096 < 16"
  by (rule less_mult_imp_div_less) simp

lemma div262144_less: "(c::nat) < 0x110000 \<Longrightarrow> c div 262144 < 5"
  by (rule less_mult_imp_div_less) simp

lemma div64_ge: "0x80 \<le> (c::nat) \<Longrightarrow> 2 \<le> c div 64"
  using div_le_mono[of 128 c 64] by simp

lemma utf8_bytes_scalar: "utf8_bytes c \<noteq> None \<longleftrightarrow> scalar c"
  by (auto simp: utf8_bytes_def scalar_def)

lemma py_decode_utf8_bytes:
  assumes "utf8_bytes c = Some bs"
  shows "py_decode (bs @ r) = decoded c (py_decode r)"
proof -
  from assms have "scalar c"
    using utf8_bytes_scalar[of c] by simp
  then consider "c < 0x80" | "0x80 \<le> c" "c < 0x800" | "0x800 \<le> c" "c < 0xD800"
    | "0xDFFF < c" "c < 0x10000" | "0x10000 \<le> c" "c < 0x110000"
    unfolding scalar_def by linarith
  then show ?thesis
  proof cases
    case 1
    with assms have "bs = [c]"
      by (simp add: utf8_bytes_def)
    with 1 show ?thesis
      by simp
  next
    case 2
    with assms have bs: "bs = [0xC0 + c div 64, 0x80 + c mod 64]"
      by (simp add: utf8_bytes_def)
    from 2 have "2 \<le> c div 64" "c div 64 < 32"
      by (simp_all add: div64_less div64_ge)
    then show ?thesis
      by (simp add: bs continuation_def)
  next
    case 3
    with assms have bs: "bs = [0xE0 + c div 4096, 0x80 + c div 64 mod 64, 0x80 + c mod 64]"
      by (simp add: utf8_bytes_def)
    from 3 have "c div 4096 < 16"
      by (simp add: div4096_less)
    with 3 utf8_three[of c] show ?thesis
      by (simp add: bs continuation_def Let_def)
  next
    case 4
    with assms have bs: "bs = [0xE0 + c div 4096, 0x80 + c div 64 mod 64, 0x80 + c mod 64]"
      by (simp add: utf8_bytes_def)
    from 4 have "c div 4096 < 16"
      by (simp add: div4096_less)
    with 4 utf8_three[of c] show ?thesis
      by (simp add: bs continuation_def Let_def)
  next
    case 5
    with assms have bs: "bs = [0xF0 + c div 262144, 0x80 + c div 4096 mod 64,
        0x80 + c div 64 mod 64, 0x80 + c mod 64]"
      by (simp add: utf8_bytes_def)
    from 5 have "c div 262144 < 5"
      by (simp add: div262144_less)
    with 5 utf8_four[of c] show ?thesis
      by (simp add: bs continuation_def Let_def)
  qed
qed

lemma py_decode_encode: "py_encode s = Inr bs \<Longrightarrow> py_decode bs = Inr s"
proof (induction s arbitrary: bs)
  case Nil
  then show ?case by simp
next
  case (Cons c cs)
  then obtain b r where b: "utf8_bytes c = Some b" and r: "py_encode cs = Inr r"
    and bs: "bs = b @ r"
    by (auto split: option.splits sum.splits)
  from Cons.IH[OF r] py_decode_utf8_bytes[OF b, of r] bs show ?case
    by (simp add: decoded_def)
qed

lemma py_encode_total: "list_all scalar s \<Longrightarrow> \<exists>bs. py_encode s = Inr bs"
proof (induction s)
  case Nil
  then show ?case by simp
next
  case (Cons c cs)
  then obtain r where "py_encode cs = Inr r" by auto
  moreover from Cons.prems obtain b where "utf8_bytes c = Some b"
    using utf8_bytes_scalar[of c] by auto
  ultimately show ?case by simp
qed

lemma py_encode_fails: "\<not> list_all scalar s \<Longrightarrow> py_encode s = Inl UnicodeEncodeError"
proof (induction s)
  case Nil
  then show ?case by simp
next
  case (Cons c cs)
  then show ?case
    using utf8_bytes_scalar[of c] by (auto split: option.splits sum.splits)
qed

text \<open>
  Claim C7, as stated, fails for a text that cannot be encoded: a string with a surrogate
  code point makes \<^verbatim>\<open>writestr\<close> raise \<^verbatim>\<open>UnicodeEncodeError\<close>, and there is no archive to
  read back.
\<close>

theorem zip_buffer_round_trip_counterexample:
  "zip_buffer [0xD800] (str ''B'') (str ''C'') = Inl UnicodeEncodeError"
  by (simp add: zip_buffer_def writestr_def utf8_bytes_def)

text \<open>
  Claim C7, amended. For all three texts that consist of Unicode scalar values (code
  points other than surrogates), the archive is built and has exactly the three entries
  \<^verbatim>\<open>index.html\<close>, \<^verbatim>\<open>style.css\<close> and \<^verbatim>\<open>script.js\<close>, in this order; each entry holds the UTF-8
  encoding of the markup, the stylesheet and the script respectively, and reading an entry
  back and decoding it yields that text. So for the texts \<^verbatim>\<open>A\<close>, \<^verbatim>\<open>B\<close>, \<^verbatim>\<open>C\<close>.
\<close>

theorem zip_buffer_round_trip:
  assumes "list_all scalar markup" and "list_all scalar stylesheet" and "list_all scalar script"
  shows "(case zip_buffer markup stylesheet script of
            Inl e \<Rightarrow> False
          | Inr zipf \<Rightarrow>
              namelist zipf = [str ''index.html'', str ''style.css'', str ''script.js''] \<and>
              map_option Inr (zip_read zipf (str ''index.html'')) = Some (py_encode markup) \<and>
              map_option Inr (zip_read zipf (str ''style.css'')) = Some (py_encode stylesheet) \<and>
              map_option Inr (zip_read zipf (str ''script.js'')) = Some (py_encode script) \<and>
              map_option py_decode (zip_read zipf (str ''index.html'')) = Some (Inr markup) \<and>
              map_option py_decode (zip_read zipf (str ''style.css'')) = Some (Inr stylesheet) \<and>
              map_option py_decode (zip_read zipf (str ''script.js'')) = Some (Inr script)) \<and>
         zip_buffer (str ''A'') (str ''B'') (str ''C'') =
           Inr [(str ''index.html'', [65]), (str ''style.css'', [66]), (str ''script.js'', [67])] \<and>
         py_decode [65] = Inr (str ''A'') \<and> py_decode [66] = Inr (str ''B'') \<and>
         py_decode [67] = Inr (str ''C'')"
proof -
  from py_encode_total[OF assms(1)] obtain bm where bm: "py_encode markup = Inr bm" ..
  from py_encode_total[OF assms(2)] obtain bs where bs: "py_encode stylesheet = Inr bs" ..
  from py_encode_total[OF assms(3)] obtain bj where bj: "py_encode script = Inr bj" ..
  note enc = bm bs bj
  define zipf where
    "zipf = [(str ''index.html'', bm), (str ''style.css'', bs), (str ''script.js'', bj)]"
  have built: "zip_buffer markup stylesheet script = Inr zipf"
    by (simp add: zip_buffer_def writestr_def enc zipf_def)
  have names: "namelist zipf = [str ''index.html'', str ''style.css'', str ''script.js'']"
    by (simp add: namelist_def zipf_def)
  have rd: "zip_read zipf (str ''index.html'') = Some bm"
    "zip_read zipf (str ''style.css'') = Some bs"
    "zip_read zipf (str ''script.js'') = Some bj"
    by (simp_all add: zip_read_def zipf_def str_def)
  have dec: "py_decode bm = Inr markup" "py_decode bs = Inr stylesheet"
    "py_decode bj = Inr script"
    using enc by (simp_all add: py_decode_encode)
  have abc: "zip_buffer (str ''A'') (str ''B'') (str ''C'') =
      Inr [(str ''index.html'', [65]), (str ''style.css'', [66]), (str ''script.js'', [67])]"
    "py_decode [65] = Inr (str ''A'')" "py_decode [66] = Inr (str ''B'')"
    "py_decode [67] = Inr (str ''C'')"
    by (simp_all add: zip_buffer_def writestr_def utf8_bytes_def str_def decoded_def)
  show ?thesis
    by (simp only: built names rd dec enc abc sum.case option.map simp_thms)
qed

theorem zip_buffer_round_trip_witness:
  "(case zip_buffer (8364 # str ''A'') (str ''B'') [] of
      Inl e \<Rightarrow> False
    | Inr zipf \<Rightarrow>
        namelist zipf = [str ''index.html'', str ''style.css'', str ''script.js''] \<and>
        map_option py_decode (zip_read zipf (str ''index.html'')) = Some (Inr (8364 # str ''A'')) \<and>
        map_option py_decode (zip_read zipf (str ''style.css'')) = Some (Inr (str ''B'')) \<and>
        map_option py_decode (zip_read zipf (str ''script.js'')) = Some (Inr [])) \<and>
   zip_buffer (8364 # str ''A'') (str ''B'') [] =
     Inr [(str ''index.html'', [226, 130, 172, 65]), (str ''style.css'', [66]),
          (str ''script.js'', [])]"
proof -
  have h: "list_all scalar (8364 # str ''A'')" "list_all scalar (str ''B'')" "list_all scalar []"
    by (simp_all add: scalar_def str_def)
  have b: "zip_buffer (8364 # str ''A'') (str ''B'') [] =
     Inr [(str ''index.html'', [226, 130, 172, 65]), (str ''style.css'', [66]),
          (str ''script.js'', [])]"
    by (simp add: zip_buffer_def writestr_def utf8_bytes_def str_def)
  from zip_buffer_round_trip[OF h] show ?thesis
    unfolding b by (simp only: sum.case simp_thms)
qed

text \<open>
  Claim C8. When the key is set, the button is clicked, the brief is not blank and the
  model replies, and the markup section extracted from the reply is empty (as it is when
  the reply has no \<^verbatim>\<open>--html--\<close> marker), the run shows the error message and then the raw
  reply, and stops: the page has no download button, so no archive was built, and exactly
  one request was sent to the model.
\<close>

theorem master_parse_failure:
  assumes "getenv_GEM s = Some key" and "key \<noteq> []" and "button s"
    and "py_strip (user_prompt s) \<noteq> []"
    and "invoke s system_prompt (user_prompt s) = Some response"
    and "extract_section response (str ''--html--'') (str ''--html--'') = [] \<or>
         \<not> py_in (str ''--html--'') response"
  shows "master s =
           \<lparr>page = form @
              [Spinner (9203 # str '' Generating your portfolio website...''),
               ErrorBox (10060 # str '' Failed to generate website.''),
               CodeBox response],
            requests = [(system_prompt, user_prompt s)],
            outcome = Stopped\<rparr> \<and>
         downloads (page (master s)) = []"
proof -
  from assms(6) have "extract_section response (str ''--html--'') (str ''--html--'') = []"
    by (auto simp: extract_section_def section_between_no_start py_in_def)
  with assms(1-5) have m: "master s =
           \<lparr>page = form @
              [Spinner (9203 # str '' Generating your portfolio website...''),
               ErrorBox (10060 # str '' Failed to generate website.''),
               CodeBox response],
            requests = [(system_prompt, user_prompt s)],
            outcome = Stopped\<rparr>"
    by (simp add: master_def)
  then show ?thesis
    by (simp add: form_def heading_def)
qed

theorem master_parse_failure_witness:
  "master \<lparr>getenv_GEM = Some (str ''key''), user_prompt = str ''I am a data scientist'',
           button = True, invoke = (\<lambda>sys usr. Some (str ''Sorry, I cannot help.''))\<rparr> =
     \<lparr>page = form @
        [Spinner (9203 # str '' Generating your portfolio website...''),
         ErrorBox (10060 # str '' Failed to generate website.''),
         CodeBox (str ''Sorry, I cannot help.'')],
      requests = [(system_prompt, str ''I am a data scientist'')],
      outcome = Stopped\<rparr> \<and>
   \<not> py_in (str ''--html--'') (str ''Sorry, I cannot help.'')"
proof -
  define s where "s = \<lparr>getenv_GEM = Some (str ''key''), user_prompt = str ''I am a data scientist'',
           button = True, invoke = (\<lambda>sys usr. Some (str ''Sorry, I cannot help.''))\<rparr>"
  have h: "getenv_GEM s = Some (str ''key'')" "str ''key'' \<noteq> []" "button s"
    "py_strip (user_prompt s) \<noteq> []"
    "invoke s system_prompt (user_prompt s) = Some (str ''Sorry, I cannot help.'')"
    "\<not> py_in (str ''--html--'') (str ''Sorry, I cannot help.'')"
    by (simp_all add: s_def str_def py_strip_def is_space_def py_in_def sublist_Cons_right)
  from master_parse_failure[OF h(1-5) disjI2[OF h(6)]] h(6) show ?thesis
    by (simp add: s_def)
qed

text \<open>
  Claim C9. When the key is set, the button is clicked and the brief is empty or consists
  of whitespace only, the run shows the error message and stops without sending a request
  to the model; the text area and the button are on the page, so the user can enter a
  brief and click again.
\<close>

theorem master_empty_input:
  assumes "getenv_GEM s = Some key" and "key \<noteq> []" and "button s"
    and "\<forall>c\<in>set (user_prompt s). is_space c"
  shows "master s =
           \<lparr>page = form @ [ErrorBox (10060 # str '' Please enter your details.'')],
            requests = [], outcome = Stopped\<rparr> \<and>
         TextArea (str ''Describe yourself (name, role, experience, skills, projects, achievements):'')
           \<in> set (page (master s)) \<and>
         Button (str ''Generate Portfolio Website'') \<in> set (page (master s))"
proof -
  from assms(4) have "py_strip (user_prompt s) = []"
    by (rule py_strip_blank)
  with assms(1-3) have "master s =
           \<lparr>page = form @ [ErrorBox (10060 # str '' Please enter your details.'')],
            requests = [], outcome = Stopped\<rparr>"
    by (simp add: master_def)
  then show ?thesis
    by (simp add: form_def heading_def)
qed

theorem master_empty_input_witness:
  "master \<lparr>getenv_GEM = Some (str ''key''), user_prompt = str '' \<newline>  '',
           button = True, invoke = (\<lambda>sys usr. None)\<rparr> =
     \<lparr>page = form @ [ErrorBox (10060 # str '' Please enter your details.'')],
      requests = [], outcome = Stopped\<rparr>"
proof -
  define s where "s = \<lparr>getenv_GEM = Some (str ''key''), user_prompt = str '' \<newline>  '',
           button = True, invoke = (\<lambda>sys usr. None :: pystr option)\<rparr>"
  have h: "getenv_GEM s = Some (str ''key'')" "str ''key'' \<noteq> []" "button s"
    "\<forall>c\<in>set (user_prompt s). is_space c"
    by (simp_all add: s_def str_def is_space_def)
  from master_empty_input[OF h] show ?thesis
    by (simp add: s_def)
qed

end
